theory Spec2Isabelle
  imports Main "HOL-Library.Sublist"
begin

section \<open>The lyrics scanner of \<^verbatim>\<open>reproduce_lyrics.py\<close>\<close>

text \<open>
  The script asks a local HTTP service for its library, then asks for the lyrics of the
  first 20 tracks, one after the other, and stops at the first track whose synced lyrics
  contain \<^verbatim>\<open>" / "\<close>. Everything runs inside one \<^verbatim>\<open>try\<close> block.

  The embedding is shallow. A Python string is the list of its code points, a parsed JSON
  document is a datatype, an exception is the left summand of the result, and the two
  effects of the script (lines printed, requests issued) are logged in a state record
  that every operation returns updated.
\<close>

subsection \<open>Python values\<close>

type_synonym pystr = "nat list"

definition ascii :: "string \<Rightarrow> pystr" where
  "ascii s = map of_char s"

text \<open>A Python float: \<open>Finite m e\<close> stands for \<open>m * 2 ^ e\<close>.\<close>

datatype pyfloat = Finite int int | Infinity bool | NaN

text \<open>
  What \<^verbatim>\<open>Response.json()\<close> returns. An object is the list of its items; a key is
  looked up with \<^const>\<open>map_of\<close>.
\<close>

datatype json =
    JNull
  | JBool bool
  | JInt int
  | JFloat pyfloat
  | JStr pystr
  | JArr "json list"
  | JObj "(pystr \<times> json) list"

text \<open>
  The exceptions the script can meet; all of them are subclasses of \<^verbatim>\<open>Exception\<close>.
  The first two come from the \<^verbatim>\<open>requests\<close> library and carry its message, which the
  library composes from fixed text, escaped URLs and escaped representations; the others
  are raised by the interpreter and the standard library.
\<close>

datatype error =
    RequestException string
  | JSONDecodeError string
  | TypeError
  | KeyError pystr
  | AttributeError
  | UnicodeEncodeError

text \<open>Truth value of an object, as \<^verbatim>\<open>or\<close> and \<^verbatim>\<open>elif\<close> test it.\<close>

fun truthy :: "json \<Rightarrow> bool" where
  "truthy JNull = False"
| "truthy (JBool b) = b"
| "truthy (JInt i) = (i \<noteq> 0)"
| "truthy (JFloat (Finite m e)) = (m \<noteq> 0)"
| "truthy (JFloat (Infinity b)) = True"
| "truthy (JFloat NaN) = True"
| "truthy (JStr s) = (s \<noteq> [])"
| "truthy (JArr xs) = (xs \<noteq> [])"
| "truthy (JObj kvs) = (kvs \<noteq> [])"

text \<open>\<^verbatim>\<open>a or b\<close>\<close>

definition py_or :: "json \<Rightarrow> json \<Rightarrow> json" where
  "py_or a b = (if truthy a then a else b)"

text \<open>\<^verbatim>\<open>len(x)\<close>\<close>

fun py_len :: "json \<Rightarrow> error + nat" where
  "py_len (JStr s) = Inr (length s)"
| "py_len (JArr xs) = Inr (length xs)"
| "py_len (JObj kvs) = Inr (length (remdups (map fst kvs)))"
| "py_len JNull = Inl TypeError"
| "py_len (JBool b) = Inl TypeError"
| "py_len (JInt i) = Inl TypeError"
| "py_len (JFloat f) = Inl TypeError"

text \<open>
  \<^verbatim>\<open>x[:n]\<close>. Slicing a dict raises (\<^verbatim>\<open>TypeError\<close> before Python 3.12,
  \<^verbatim>\<open>KeyError\<close> since); the model keeps the first.
\<close>

fun py_slice :: "nat \<Rightarrow> json \<Rightarrow> error + json" where
  "py_slice n (JStr s) = Inr (JStr (take n s))"
| "py_slice n (JArr xs) = Inr (JArr (take n xs))"
| "py_slice n (JObj kvs) = Inl TypeError"
| "py_slice n JNull = Inl TypeError"
| "py_slice n (JBool b) = Inl TypeError"
| "py_slice n (JInt i) = Inl TypeError"
| "py_slice n (JFloat f) = Inl TypeError"

text \<open>The items a \<^verbatim>\<open>for\<close> loop over \<open>x\<close> visits.\<close>

fun py_iter :: "json \<Rightarrow> error + json list" where
  "py_iter (JStr s) = Inr (map (\<lambda>c. JStr [c]) s)"
| "py_iter (JArr xs) = Inr xs"
| "py_iter (JObj kvs) = Inr (map JStr (remdups (map fst kvs)))"
| "py_iter JNull = Inl TypeError"
| "py_iter (JBool b) = Inl TypeError"
| "py_iter (JInt i) = Inl TypeError"
| "py_iter (JFloat f) = Inl TypeError"

text \<open>\<^verbatim>\<open>x[key]\<close> for a string key.\<close>

fun py_getitem :: "json \<Rightarrow> pystr \<Rightarrow> error + json" where
  "py_getitem (JObj kvs) key =
     (case map_of kvs key of None \<Rightarrow> Inl (KeyError key) | Some v \<Rightarrow> Inr v)"
| "py_getitem (JStr s) key = Inl TypeError"
| "py_getitem (JArr xs) key = Inl TypeError"
| "py_getitem JNull key = Inl TypeError"
| "py_getitem (JBool b) key = Inl TypeError"
| "py_getitem (JInt i) key = Inl TypeError"
| "py_getitem (JFloat f) key = Inl TypeError"

text \<open>\<^verbatim>\<open>x.get(key, default)\<close>: only a dict has the method.\<close>

fun dict_get :: "json \<Rightarrow> pystr \<Rightarrow> json \<Rightarrow> error + json" where
  "dict_get (JObj kvs) key dflt =
     Inr (case map_of kvs key of None \<Rightarrow> dflt | Some v \<Rightarrow> v)"
| "dict_get (JStr s) key dflt = Inl AttributeError"
| "dict_get (JArr xs) key dflt = Inl AttributeError"
| "dict_get JNull key dflt = Inl AttributeError"
| "dict_get (JBool b) key dflt = Inl AttributeError"
| "dict_get (JInt i) key dflt = Inl AttributeError"
| "dict_get (JFloat f) key dflt = Inl AttributeError"

text \<open>
  \<^verbatim>\<open>needle in x\<close> for a string needle: a substring test on a string, a membership test
  on a list and on the keys of a dict.
\<close>

fun py_in :: "pystr \<Rightarrow> json \<Rightarrow> error + bool" where
  "py_in needle (JStr s) = Inr (sublist needle s)"
| "py_in needle (JArr xs) = Inr (JStr needle \<in> set xs)"
| "py_in needle (JObj kvs) = Inr (needle \<in> set (map fst kvs))"
| "py_in needle JNull = Inl TypeError"
| "py_in needle (JBool b) = Inl TypeError"
| "py_in needle (JInt i) = Inl TypeError"
| "py_in needle (JFloat f) = Inl TypeError"

subsection \<open>\<^verbatim>\<open>urllib.parse.quote(path, safe='')\<close>\<close>

text \<open>
  The standard library's function, as CPython 3.7 and later define it: a string is encoded
  as UTF-8 (strictly, so a lone surrogate raises), and every byte that is not a letter, a
  digit or one of \<^verbatim>\<open>_.-~\<close> becomes \<^verbatim>\<open>%XX\<close> with upper-case hexadecimal digits. With
  \<^verbatim>\<open>safe=''\<close> no further byte is kept.
\<close>

definition utf8_char :: "nat \<Rightarrow> error + nat list" where
  "utf8_char c =
     (if c < 0x80 then Inr [c]
      else if c < 0x800 then Inr [0xC0 + c div 64, 0x80 + c mod 64]
      else if c < 0x10000 then
        (if 0xD800 \<le> c \<and> c \<le> 0xDFFF then Inl UnicodeEncodeError
         else Inr [0xE0 + c div 4096, 0x80 + c div 64 mod 64, 0x80 + c mod 64])
      else if c < 0x110000 then
        Inr [0xF0 + c div 262144, 0x80 + c div 4096 mod 64, 0x80 + c div 64 mod 64,
             0x80 + c mod 64]
      else Inl UnicodeEncodeError)"

fun utf8_encode :: "pystr \<Rightarrow> error + nat list" where
  "utf8_encode [] = Inr []"
| "utf8_encode (c # cs) =
     (case utf8_char c of
        Inl e \<Rightarrow> Inl e
      | Inr bs \<Rightarrow> (case utf8_encode cs of Inl e \<Rightarrow> Inl e | Inr rest \<Rightarrow> Inr (bs @ rest)))"

definition always_safe :: "nat \<Rightarrow> bool" where
  "always_safe b \<longleftrightarrow>
     (65 \<le> b \<and> b \<le> 90) \<or> (97 \<le> b \<and> b \<le> 122) \<or> (48 \<le> b \<and> b \<le> 57) \<or>
     b = 95 \<or> b = 46 \<or> b = 45 \<or> b = 126"

definition hex_digit :: "nat \<Rightarrow> nat" where
  "hex_digit d = (if d < 10 then 48 + d else 55 + d)"

definition quoter :: "nat \<Rightarrow> pystr" where
  "quoter b = (if always_safe b then [b] else [37, hex_digit (b div 16), hex_digit (b mod 16)])"

definition rstrip :: "('a \<Rightarrow> bool) \<Rightarrow> 'a list \<Rightarrow> 'a list" where
  "rstrip P bs = rev (dropWhile P (rev bs))"

definition quote_from_bytes :: "nat list \<Rightarrow> pystr" where
  "quote_from_bytes bs =
     (if bs = [] then []
      else if rstrip always_safe bs = [] then bs
      else concat (map quoter bs))"

fun quote :: "json \<Rightarrow> error + pystr" where
  "quote (JStr s) =
     (if s = [] then Inr s
      else (case utf8_encode s of Inl e \<Rightarrow> Inl e | Inr bs \<Rightarrow> Inr (quote_from_bytes bs)))"
| "quote (JArr xs) = Inl TypeError"
| "quote (JObj kvs) = Inl TypeError"
| "quote JNull = Inl TypeError"
| "quote (JBool b) = Inl TypeError"
| "quote (JInt i) = Inl TypeError"
| "quote (JFloat f) = Inl TypeError"

subsection \<open>The HTTP service and the effects of the script\<close>

text \<open>
  A response of \<^verbatim>\<open>requests.get\<close>: its status code and what its \<^verbatim>\<open>json()\<close> method
  does, which is to raise when the body is not JSON.
\<close>

record response =
  status_code :: int
  body_json :: "error + json"

text \<open>
  The service and the network: what the \<open>n\<close>-th call of \<^verbatim>\<open>requests.get\<close> in a run
  (counted from 0) does for a URL. It raises or returns a response. Call 0 of a run is
  the library request; the calls after it are the lyrics requests, in the order of the
  loop. The service may answer the same URL differently at different calls.
\<close>

type_synonym http = "nat \<Rightarrow> pystr \<Rightarrow> error + response"

text \<open>One constructor for each \<^verbatim>\<open>print\<close> call of the script, in the order of the source.\<close>

datatype event =
    CheckingCount nat
  | CheckingPath json
  | FoundRomaji json
  | SnippetHeader
  | Snippet json
  | SnippetFooter
  | FoundLyrics
  | ErrorLine error

record state =
  out :: "event list"
  reqs :: "pystr list"

text \<open>
  Standard output encodes what it is given as UTF-8 and is strict about it: a code point
  that UTF-8 cannot encode (a lone surrogate, which \<^verbatim>\<open>json()\<close> accepts from the service)
  makes \<^verbatim>\<open>print\<close> raise \<^verbatim>\<open>UnicodeEncodeError\<close> before anything of the line is written.
\<close>

definition encodable :: "nat \<Rightarrow> bool" where
  "encodable c \<longleftrightarrow> c < 0xD800 \<or> (0xDFFF < c \<and> c < 0x110000)"

text \<open>
  Whether the text of a value can be printed. A string is printed as it is; every other
  value is printed through its representation, which escapes what cannot be encoded.
\<close>

fun printable_value :: "json \<Rightarrow> bool" where
  "printable_value (JStr s) = list_all encodable s"
| "printable_value (JArr xs) = True"
| "printable_value (JObj kvs) = True"
| "printable_value JNull = True"
| "printable_value (JBool b) = True"
| "printable_value (JInt i) = True"
| "printable_value (JFloat f) = True"

text \<open>
  Whether a line can be printed. The fixed lines are ASCII; the text of an exception is
  its message or an escaped representation.
\<close>

fun printable :: "event \<Rightarrow> bool" where
  "printable (CheckingCount n) = True"
| "printable (CheckingPath path) = printable_value path"
| "printable (FoundRomaji path) = printable_value path"
| "printable SnippetHeader = True"
| "printable (Snippet snippet) = printable_value snippet"
| "printable SnippetFooter = True"
| "printable FoundLyrics = True"
| "printable (ErrorLine e) = True"

definition print :: "event \<Rightarrow> state \<Rightarrow> (error + unit) \<times> state" where
  "print ev s =
     (if printable ev then (Inr (), s\<lparr>out := out s @ [ev]\<rparr>)
      else (Inl UnicodeEncodeError, s))"

definition requests_get :: "http \<Rightarrow> pystr \<Rightarrow> state \<Rightarrow> (error + response) \<times> state" where
  "requests_get w url s = (w (length (reqs s)) url, s\<lparr>reqs := reqs s @ [url]\<rparr>)"

definition library_url :: pystr where
  "library_url = ascii ''http://localhost:5000/api/library''"

definition lyrics_url :: pystr where
  "lyrics_url = ascii ''http://localhost:5000/api/lyrics/''"

definition marker :: pystr where
  "marker = ascii '' / ''"

subsection \<open>The scan\<close>

text \<open>How one round of the loop ends: with the next track, or with \<^verbatim>\<open>return\<close>.\<close>

datatype control = Next | Return

text \<open>The expression \<^verbatim>\<open>data.get(key, '') or ''\<close> of lines 31 and 32.\<close>

definition get_or_empty :: "json \<Rightarrow> pystr \<Rightarrow> error + json" where
  "get_or_empty data key =
     (case dict_get data key (JStr []) of
        Inl e \<Rightarrow> Inl e
      | Inr v \<Rightarrow> Inr (py_or v (JStr [])))"

text \<open>The body of the \<^verbatim>\<open>for\<close> loop (lines 19 to 42) for one track.\<close>

definition check_track :: "http \<Rightarrow> json \<Rightarrow> state \<Rightarrow> (error + control) \<times> state" where
  "check_track w track s =
     (case py_getitem track (ascii ''path'') of
        Inl e \<Rightarrow> (Inl e, s)
      | Inr path \<Rightarrow>
     (case print (CheckingPath path) s of
        (Inl e, s1) \<Rightarrow> (Inl e, s1)
      | (Inr u, s1) \<Rightarrow>
     (case quote path of
        Inl e \<Rightarrow> (Inl e, s1)
      | Inr encoded_path \<Rightarrow>
          let url = lyrics_url @ encoded_path;
              (got, s2) = requests_get w url s1
          in
     (case got of
        Inl e \<Rightarrow> (Inl e, s2)
      | Inr r_lyrics \<Rightarrow>
          if status_code r_lyrics = 200 then
     (case body_json r_lyrics of
        Inl e \<Rightarrow> (Inl e, s2)
      | Inr data \<Rightarrow>
     (case get_or_empty data (ascii ''syncedLyrics'') of
        Inl e \<Rightarrow> (Inl e, s2)
      | Inr synced \<Rightarrow>
     (case get_or_empty data (ascii ''plainLyrics'') of
        Inl e \<Rightarrow> (Inl e, s2)
      | Inr plain \<Rightarrow>
     (case py_in marker synced of
        Inl e \<Rightarrow> (Inl e, s2)
      | Inr found \<Rightarrow>
          if found then
     (case print (FoundRomaji path) s2 of
        (Inl e, s3) \<Rightarrow> (Inl e, s3)
      | (Inr u, s3) \<Rightarrow>
     (case print SnippetHeader s3 of
        (Inl e, s4) \<Rightarrow> (Inl e, s4)
      | (Inr u, s4) \<Rightarrow>
     (case py_slice 200 synced of
        Inl e \<Rightarrow> (Inl e, s4)
      | Inr snippet \<Rightarrow>
     (case print (Snippet snippet) s4 of
        (Inl e, s5) \<Rightarrow> (Inl e, s5)
      | (Inr u, s5) \<Rightarrow>
     (case print SnippetFooter s5 of
        (Inl e, s6) \<Rightarrow> (Inl e, s6)
      | (Inr u, s6) \<Rightarrow> (Inr Return, s6))))))
          else if truthy synced then
     (case print FoundLyrics s2 of
        (Inl e, s3) \<Rightarrow> (Inl e, s3)
      | (Inr u, s3) \<Rightarrow> (Inr Next, s3))
          else (Inr Next, s2)))))
          else (Inr Next, s2)))))"

text \<open>The \<^verbatim>\<open>for\<close> loop: it ends when the tracks do, at a \<^verbatim>\<open>return\<close>, or at an exception.\<close>

fun for_tracks :: "http \<Rightarrow> json list \<Rightarrow> state \<Rightarrow> (error + control) \<times> state" where
  "for_tracks w [] s = (Inr Next, s)"
| "for_tracks w (track # rest) s =
     (case check_track w track s of
        (Inr Next, s') \<Rightarrow> for_tracks w rest s'
      | (Inr Return, s') \<Rightarrow> (Inr Return, s')
      | (Inl e, s') \<Rightarrow> (Inl e, s'))"

text \<open>The body of the \<^verbatim>\<open>try\<close> block (lines 11 to 42).\<close>

definition try_body :: "http \<Rightarrow> state \<Rightarrow> (error + control) \<times> state" where
  "try_body w s =
     (let (got, s1) = requests_get w library_url s in
      case got of
        Inl e \<Rightarrow> (Inl e, s1)
      | Inr r \<Rightarrow>
          (case body_json r of
             Inl e \<Rightarrow> (Inl e, s1)
           | Inr tracks \<Rightarrow>
               (case py_len tracks of
                  Inl e \<Rightarrow> (Inl e, s1)
                | Inr n \<Rightarrow>
                    (case print (CheckingCount n) s1 of
                       (Inl e, s2) \<Rightarrow> (Inl e, s2)
                     | (Inr u, s2) \<Rightarrow>
                         (case py_slice 20 tracks of
                            Inl e \<Rightarrow> (Inl e, s2)
                          | Inr first \<Rightarrow>
                              (case py_iter first of
                                 Inl e \<Rightarrow> (Inl e, s2)
                               | Inr items \<Rightarrow> for_tracks w items s2))))))"

text \<open>
  The function: \<^verbatim>\<open>except Exception as e\<close> catches every exception of the body and
  prints one line for it; an exception of that \<^verbatim>\<open>print\<close> would leave the function.
  Otherwise the function returns \<^verbatim>\<open>None\<close>.
\<close>

definition search_track_with_lyrics :: "http \<Rightarrow> state \<Rightarrow> (error + unit) \<times> state" where
  "search_track_with_lyrics w s =
     (case try_body w s of
        (Inl e, s') \<Rightarrow> print (ErrorLine e) s'
      | (Inr c, s') \<Rightarrow> (Inr (), s'))"

definition init :: state where
  "init = \<lparr>out = [], reqs = []\<rparr>"

text \<open>
  The script: it calls the function once. The interpreter exits with status 1 when an
  exception reaches the top level and with status 0 otherwise.
\<close>

definition main :: "http \<Rightarrow> state \<times> int" where
  "main w =
     (case search_track_with_lyrics w init of
        (Inl e, s) \<Rightarrow> (s, 1)
      | (Inr u, s) \<Rightarrow> (s, 0))"

subsection \<open>Notions the properties are stated with\<close>

text \<open>The URL the loop body requests for a track (lines 19, 24 and 26).\<close>

definition track_url :: "json \<Rightarrow> error + pystr" where
  "track_url track =
     (case py_getitem track (ascii ''path'') of
        Inl e \<Rightarrow> Inl e
      | Inr path \<Rightarrow>
          (case quote path of
             Inl e \<Rightarrow> Inl e
           | Inr encoded_path \<Rightarrow> Inr (lyrics_url @ encoded_path)))"

text \<open>
  The \<open>n\<close>-th request of a run, made for a track, is answered with neither a match nor
  an exception: the status is not 200, or the body is an object in which the marker is
  not found.
\<close>

definition unmatched :: "http \<Rightarrow> nat \<Rightarrow> json \<Rightarrow> bool" where
  "unmatched w n track =
     (case track_url track of
        Inl e \<Rightarrow> False
      | Inr url \<Rightarrow>
          (case w n url of
             Inl e \<Rightarrow> False
           | Inr r \<Rightarrow>
               status_code r \<noteq> 200 \<or>
               (case body_json r of
                  Inl e \<Rightarrow> False
                | Inr data \<Rightarrow>
                    (case get_or_empty data (ascii ''syncedLyrics'') of
                       Inl e \<Rightarrow> False
                     | Inr synced \<Rightarrow>
                         (case get_or_empty data (ascii ''plainLyrics'') of
                            Inl e \<Rightarrow> False
                          | Inr plain \<Rightarrow> py_in marker synced = Inr False)))))"

text \<open>
  The exception of a round of the loop, read off the operations of the round in their
  order: the first of them that raises decides. The round is the \<open>n\<close>-th request of the
  run.
\<close>

definition round_error :: "http \<Rightarrow> nat \<Rightarrow> json \<Rightarrow> error option" where
  "round_error w n track =
     (case py_getitem track (ascii ''path'') of
        Inl e \<Rightarrow> Some e
      | Inr path \<Rightarrow>
          if \<not> printable_value path then Some UnicodeEncodeError
          else
     (case quote path of
        Inl e \<Rightarrow> Some e
      | Inr encoded_path \<Rightarrow>
     (case w n (lyrics_url @ encoded_path) of
        Inl e \<Rightarrow> Some e
      | Inr r \<Rightarrow>
          if status_code r \<noteq> 200 then None
          else
     (case body_json r of
        Inl e \<Rightarrow> Some e
      | Inr data \<Rightarrow>
     (case get_or_empty data (ascii ''syncedLyrics'') of
        Inl e \<Rightarrow> Some e
      | Inr synced \<Rightarrow>
     (case get_or_empty data (ascii ''plainLyrics'') of
        Inl e \<Rightarrow> Some e
      | Inr plain \<Rightarrow>
     (case py_in marker synced of
        Inl e \<Rightarrow> Some e
      | Inr found \<Rightarrow>
          if \<not> found then None
          else
     (case py_slice 200 synced of
        Inl e \<Rightarrow> Some e
      | Inr snippet \<Rightarrow>
          if printable_value snippet then None else Some UnicodeEncodeError))))))))"

fun is_error_line :: "event \<Rightarrow> bool" where
  "is_error_line (ErrorLine e) = True"
| "is_error_line (CheckingCount n) = False"
| "is_error_line (CheckingPath p) = False"
| "is_error_line (FoundRomaji p) = False"
| "is_error_line SnippetHeader = False"
| "is_error_line (Snippet x) = False"
| "is_error_line SnippetFooter = False"
| "is_error_line FoundLyrics = False"



text \<open>
  Two answers of the service that differ at most in the value of \<^verbatim>\<open>plainLyrics\<close>:
  both raise the same exception, or both are responses with the same status whose bodies
  are equal or are objects that agree on every other key.
\<close>

definition same_but_plain :: "error + response \<Rightarrow> error + response \<Rightarrow> bool" where
  "same_but_plain a b \<longleftrightarrow>
     a = b \<or>
     (\<exists>r1 r2 kvs1 kvs2.
        a = Inr r1 \<and> b = Inr r2 \<and> status_code r1 = status_code r2 \<and>
        body_json r1 = Inr (JObj kvs1) \<and> body_json r2 = Inr (JObj kvs2) \<and>
        (\<forall>key. key \<noteq> ascii ''plainLyrics'' \<longrightarrow> map_of kvs1 key = map_of kvs2 key))"

subsection \<open>Example services\<close>

definition track :: "string \<Rightarrow> json" where
  "track p = JObj [(ascii ''path'', JStr (ascii p))]"

definition ok :: "json \<Rightarrow> error + response" where
  "ok body = Inr \<lparr>status_code = 200, body_json = Inr body\<rparr>"

definition not_found :: "error + response" where
  "not_found = Inr \<lparr>status_code = 404, body_json = Inl (JSONDecodeError ''Expecting value'')\<rparr>"

text \<open>
  The scenario of the specification: two tracks, the second with romaji lyrics
  (\<^verbatim>\<open>konnichiwa / \<close> followed by five hiragana).
\<close>

definition konnichiwa :: pystr where
  "konnichiwa = ascii ''konnichiwa / '' @ [12371, 12435, 12395, 12385, 12399]"

definition two_tracks :: http where
  "two_tracks n url =
     (if url = library_url then ok (JArr [track ''x.mp3'', track ''y.mp3''])
      else if url = lyrics_url @ ascii ''x.mp3'' then
        ok (JObj [(ascii ''syncedLyrics'', JStr (ascii ''hello world''))])
      else if url = lyrics_url @ ascii ''y.mp3'' then
        ok (JObj [(ascii ''syncedLyrics'', JStr konnichiwa)])
      else not_found)"

text \<open>The same service with a \<^verbatim>\<open>plainLyrics\<close> value added to each lyrics answer.\<close>

definition two_tracks_plain :: http where
  "two_tracks_plain n url =
     (if url = library_url then ok (JArr [track ''x.mp3'', track ''y.mp3''])
      else if url = lyrics_url @ ascii ''x.mp3'' then
        ok (JObj [(ascii ''plainLyrics'', JStr (ascii ''a / b'')),
                  (ascii ''syncedLyrics'', JStr (ascii ''hello world''))])
      else if url = lyrics_url @ ascii ''y.mp3'' then
        ok (JObj [(ascii ''syncedLyrics'', JStr konnichiwa), (ascii ''plainLyrics'', JInt 7)])
      else not_found)"

text \<open>A library of 21 tracks, all with the same path, whose lyrics are all missing.\<close>

definition no_lyrics :: http where
  "no_lyrics n url =
     (if url = library_url then ok (JArr (replicate 21 (track ''a/b c.mp3''))) else not_found)"

text \<open>
  Three tracks: lyrics without the marker, an empty answer, and a null field.
\<close>

definition quiet :: http where
  "quiet n url =
     (if url = library_url then ok (JArr [track ''p'', track ''q'', track ''r''])
      else if url = lyrics_url @ ascii ''p'' then
        ok (JObj [(ascii ''syncedLyrics'', JStr (ascii ''la la''))])
      else if url = lyrics_url @ ascii ''q'' then ok (JObj [])
      else if url = lyrics_url @ ascii ''r'' then
        ok (JObj [(ascii ''syncedLyrics'', JNull), (ascii ''plainLyrics'', JStr (ascii ''x''))])
      else not_found)"

text \<open>A service that is down: every request raises.\<close>

definition down :: http where
  "down n url = Inl (RequestException ''Connection refused'')"

text \<open>
  One track whose synced lyrics hold the marker and, after it, a lone surrogate
  (\<^verbatim>\<open>"a / b \ud800"\<close>).
\<close>

definition lone_surrogate :: pystr where
  "lone_surrogate = ascii ''a / b '' @ [0xD800]"

definition surrogate_lyrics :: http where
  "surrogate_lyrics n url =
     (if url = library_url then ok (JArr [track ''x.mp3''])
      else if url = lyrics_url @ ascii ''x.mp3'' then
        ok (JObj [(ascii ''syncedLyrics'', JStr lone_surrogate)])
      else not_found)"

text \<open>Two tracks; the lyrics request for the second one fails.\<close>

definition second_request_fails :: http where
  "second_request_fails n url =
     (if url = library_url then ok (JArr [track ''p'', track ''q''])
      else if url = lyrics_url @ ascii ''p'' then
        ok (JObj [(ascii ''syncedLyrics'', JStr (ascii ''la la''))])
      else Inl (RequestException ''Connection reset''))"

section \<open>Properties\<close>

subsection \<open>Encoding and printing\<close>

lemma utf8_char_encodable: "(\<exists>bs. utf8_char c = Inr bs) \<longleftrightarrow> encodable c"
  by (auto simp: utf8_char_def encodable_def)

lemma utf8_encode_encodable: "(\<exists>bs. utf8_encode s = Inr bs) \<longleftrightarrow> list_all encodable s"
proof (induction s)
  case Nil then show ?case by simp
next
  case (Cons c s)
  show ?case
  proof (cases "utf8_char c")
    case (Inl e)
    then have "\<not> encodable c" using utf8_char_encodable[of c] by auto
    with Inl show ?thesis by simp
  next
    case (Inr bs)
    then have "encodable c" using utf8_char_encodable[of c] by auto
    with Inr Cons show ?thesis by (auto split: sum.splits)
  qed
qed

lemma quote_printable: "quote path = Inr enc \<Longrightarrow> printable_value path"
proof (cases path)
  case (JStr s)
  assume "quote path = Inr enc"
  with JStr have "s = [] \<or> (\<exists>bs. utf8_encode s = Inr bs)"
    by (auto split: if_splits sum.splits)
  with JStr show ?thesis using utf8_encode_encodable[of s] by auto
qed simp_all

lemma print_ok: "printable ev \<Longrightarrow> print ev s = (Inr (), s\<lparr>out := out s @ [ev]\<rparr>)"
  by (simp add: print_def)

subsection \<open>One round of the loop\<close>

lemmas ct_defs = check_track_def requests_get_def print_def Let_def

lemma marker_nonempty: "marker \<noteq> []"
  by (simp add: marker_def ascii_def)

lemma keys_differ: "ascii ''syncedLyrics'' \<noteq> ascii ''plainLyrics''"
  by (simp add: ascii_def)

lemma get_or_empty_obj: "\<exists>v. get_or_empty (JObj kvs) key = Inr v"
  by (simp add: get_or_empty_def)

lemma get_or_empty_text:
  "map_of kvs key = Some (JStr text) \<Longrightarrow> get_or_empty (JObj kvs) key = Inr (JStr text)"
  by (simp add: get_or_empty_def py_or_def)

lemma track_urlD:
  "track_url t = Inr url \<Longrightarrow>
   \<exists>p enc. py_getitem t (ascii ''path'') = Inr p \<and> quote p = Inr enc \<and> url = lyrics_url @ enc"
  by (auto simp: track_url_def split: sum.splits)

lemma check_track_grows:
  "check_track w t s = (r, s') \<Longrightarrow>
   \<exists>evs rs. out s' = out s @ evs \<and> reqs s' = reqs s @ rs \<and> length rs \<le> 1 \<and>
     filter is_error_line evs = []"
  by (auto simp: ct_defs split: sum.splits if_splits)

lemma check_track_Next:
  "check_track w t s = (Inr Next, s') \<Longrightarrow>
   \<exists>url evs. track_url t = Inr url \<and> reqs s' = reqs s @ [url] \<and> out s' = out s @ evs \<and>
     set evs \<subseteq> insert FoundLyrics (range CheckingPath)"
  by (auto simp: ct_defs track_url_def split: sum.splits if_splits)

lemma check_track_Next_iff:
  "fst (check_track w t s) = Inr Next \<longleftrightarrow> unmatched w (length (reqs s)) t"
  by (auto simp: ct_defs track_url_def unmatched_def split: sum.splits if_splits
      dest: quote_printable)

lemma check_track_error_iff:
  "fst (check_track w t s) = Inl e \<longleftrightarrow> round_error w (length (reqs s)) t = Some e"
  by (auto simp: ct_defs round_error_def split: sum.splits if_splits dest: quote_printable)

lemma check_track_req:
  "check_track w t s = (r, s') \<Longrightarrow> reqs s' \<noteq> reqs s \<Longrightarrow>
   \<exists>url. track_url t = Inr url \<and> reqs s' = reqs s @ [url]"
  by (auto simp: ct_defs track_url_def split: sum.splits if_splits)

lemma check_track_object:
  assumes "py_getitem t (ascii ''path'') = Inr p" "quote p = Inr enc"
    and "w (length (reqs s)) (lyrics_url @ enc) = Inr r" "status_code r = 200"
    and "body_json r = Inr (JObj kvs)"
    and "get_or_empty (JObj kvs) (ascii ''syncedLyrics'') = Inr (JStr text)"
  shows "check_track w t s =
    (if sublist marker text then
       (if list_all encodable (take 200 text) then
          (Inr Return, s\<lparr>out := out s @ [CheckingPath p, FoundRomaji p, SnippetHeader,
                                        Snippet (JStr (take 200 text)), SnippetFooter],
                        reqs := reqs s @ [lyrics_url @ enc]\<rparr>)
        else
          (Inl UnicodeEncodeError,
           s\<lparr>out := out s @ [CheckingPath p, FoundRomaji p, SnippetHeader],
             reqs := reqs s @ [lyrics_url @ enc]\<rparr>))
     else
       (Inr Next, s\<lparr>out := out s @ CheckingPath p # (if text = [] then [] else [FoundLyrics]),
                   reqs := reqs s @ [lyrics_url @ enc]\<rparr>))"
  using assms get_or_empty_obj[of kvs "ascii ''plainLyrics''"] quote_printable[OF assms(2)]
  by (auto simp: ct_defs)

lemma check_track_hit:
  assumes "check_track w t s = (res, s')" "reqs s' = reqs s @ [url]"
    and "w (length (reqs s)) url = Inr r" "status_code r = 200"
    and "body_json r = Inr (JObj kvs)"
    and "map_of kvs (ascii ''syncedLyrics'') = Some (JStr text)" "sublist marker text"
  shows "track_url t = Inr url \<and>
    (\<exists>p. py_getitem t (ascii ''path'') = Inr p \<and>
       (if list_all encodable (take 200 text) then
          res = Inr Return \<and>
          out s' = out s @ [CheckingPath p, FoundRomaji p, SnippetHeader,
                            Snippet (JStr (take 200 text)), SnippetFooter]
        else
          res = Inl UnicodeEncodeError \<and>
          out s' = out s @ [CheckingPath p, FoundRomaji p, SnippetHeader]))"
proof -
  from assms(1,2) have tu: "track_url t = Inr url"
    using check_track_req by fastforce
  then obtain p enc where p: "py_getitem t (ascii ''path'') = Inr p" "quote p = Inr enc"
    "url = lyrics_url @ enc" using track_urlD by blast
  from check_track_object[where w=w and s=s, OF p(1,2) assms(3)[unfolded p(3)] assms(4,5)
      get_or_empty_text[OF assms(6)]]
  show ?thesis using assms(1,7) p tu by (auto split: if_splits)
qed

subsection \<open>The loop\<close>

lemma for_tracks_grows:
  "for_tracks w ts s = (res, sf) \<Longrightarrow>
   \<exists>evs rs. out sf = out s @ evs \<and> reqs sf = reqs s @ rs \<and> filter is_error_line evs = []"
proof (induction ts arbitrary: s)
  case Nil then show ?case by simp
next
  case (Cons t ts)
  obtain r s1 where c: "check_track w t s = (r, s1)" by (cases "check_track w t s")
  from check_track_grows[OF c] obtain evs rs where
    g: "out s1 = out s @ evs" "reqs s1 = reqs s @ rs" "filter is_error_line evs = []" by blast
  show ?case
  proof (cases "r = Inr Next")
    case True
    with Cons.prems c have "for_tracks w ts s1 = (res, sf)" by simp
    from Cons.IH[OF this] g show ?thesis by auto
  next
    case False
    with Cons.prems c have "sf = s1" by (auto split: sum.splits control.splits)
    with g show ?thesis by auto
  qed
qed

lemma for_tracks_reqs:
  "for_tracks w ts s = (res, sf) \<Longrightarrow>
   \<exists>m rs. m \<le> length ts \<and> reqs sf = reqs s @ rs \<and> map Inr rs = map track_url (take m ts) \<and>
     (res = Inr Next \<longrightarrow> m = length ts)"
proof (induction ts arbitrary: s)
  case Nil then show ?case by simp
next
  case (Cons t ts)
  obtain r s1 where c: "check_track w t s = (r, s1)" by (cases "check_track w t s")
  show ?case
  proof (cases "r = Inr Next")
    case True
    with c obtain url where u: "track_url t = Inr url" "reqs s1 = reqs s @ [url]"
      using check_track_Next by blast
    from True Cons.prems c have "for_tracks w ts s1 = (res, sf)" by simp
    from Cons.IH[OF this] obtain m rs where
      m: "m \<le> length ts" "reqs sf = reqs s1 @ rs" "map Inr rs = map track_url (take m ts)"
         "res = Inr Next \<longrightarrow> m = length ts" by blast
    show ?thesis
      by (rule exI[of _ "Suc m"], rule exI[of _ "url # rs"]) (use m u in simp)
  next
    case False
    with Cons.prems c have sf: "sf = s1" "res = r" by (auto split: sum.splits control.splits)
    show ?thesis
    proof (cases "reqs s1 = reqs s")
      case True
      show ?thesis by (rule exI[of _ 0], rule exI[of _ "[]"]) (use True sf False in simp)
    next
      case ne: False
      from check_track_req[OF c ne] obtain url where
        u: "track_url t = Inr url" "reqs s1 = reqs s @ [url]" by blast
      show ?thesis
        by (rule exI[of _ "Suc 0"], rule exI[of _ "[url]"]) (use u sf False in simp)
    qed
  qed
qed

lemma for_tracks_hit:
  assumes "for_tracks w ts s = (res, sf)"
    and "length (reqs s) \<le> k" "k < length (reqs sf)"
    and "w k (reqs sf ! k) = Inr r" "status_code r = 200" "body_json r = Inr (JObj kvs)"
    and "map_of kvs (ascii ''syncedLyrics'') = Some (JStr text)" "sublist marker text"
  shows "length (reqs sf) = Suc k \<and> k - length (reqs s) < length ts \<and>
    track_url (ts ! (k - length (reqs s))) = Inr (reqs sf ! k) \<and>
    (\<exists>p evs. py_getitem (ts ! (k - length (reqs s))) (ascii ''path'') = Inr p \<and>
       (if list_all encodable (take 200 text) then
          res = Inr Return \<and>
          out sf = evs @ [CheckingPath p, FoundRomaji p, SnippetHeader,
                          Snippet (JStr (take 200 text)), SnippetFooter]
        else
          res = Inl UnicodeEncodeError \<and>
          out sf = evs @ [CheckingPath p, FoundRomaji p, SnippetHeader]))"
  using assms(1-4)
proof (induction ts arbitrary: s)
  case Nil then show ?case by simp
next
  case (Cons t ts)
  obtain r1 s1 where c: "check_track w t s = (r1, s1)" by (cases "check_track w t s")
  from check_track_grows[OF c] obtain evs rs where
    g: "out s1 = out s @ evs" "reqs s1 = reqs s @ rs" "length rs \<le> 1" by blast
  show ?case
  proof (cases "r1 = Inr Next")
    case True
    with c obtain url where u: "track_url t = Inr url" "reqs s1 = reqs s @ [url]"
      using check_track_Next by blast
    from True Cons.prems c have f: "for_tracks w ts s1 = (res, sf)" by simp
    from for_tracks_grows[OF f] obtain rs' where rs': "reqs sf = reqs s1 @ rs'" by blast
    show ?thesis
    proof (cases "k = length (reqs s)")
      case k: True
      with rs' u have "reqs sf ! k = url" by (simp add: nth_append)
      with Cons.prems(4) k have "w (length (reqs s)) url = Inr r" by simp
      from check_track_hit[OF c u(2) this assms(5-8)] True show ?thesis
        by (auto split: if_splits)
    next
      case False
      with Cons.prems(2) u have "length (reqs s1) \<le> k" by simp
      from Cons.IH[OF f this Cons.prems(3,4)] Cons.prems(2) False u
      show ?thesis
        by (auto simp: nth_Cons' Suc_diff_Suc split: if_splits)
    qed
  next
    case False
    with Cons.prems c have sf: "sf = s1" "res = r1" by (auto split: sum.splits control.splits)
    with Cons.prems(2,3) g have k: "k = length (reqs s)" and "length rs = 1" by auto
    then obtain url where "rs = [url]" by (cases rs) auto
    with g have u: "reqs s1 = reqs s @ [url]" by simp
    with Cons.prems(4) sf k have "w (length (reqs s)) url = Inr r" by simp
    from check_track_hit[OF c u this assms(5-8)] sf k u g show ?thesis
      by (auto split: if_splits)
  qed
qed

lemma for_tracks_unmatched:
  "\<forall>i < length ts. unmatched w (length (reqs s) + i) (ts ! i) \<Longrightarrow>
   \<exists>sf evs. for_tracks w ts s = (Inr Next, sf) \<and> out sf = out s @ evs \<and>
     length (reqs sf) = length (reqs s) + length ts \<and>
     set evs \<subseteq> insert FoundLyrics (range CheckingPath)"
proof (induction ts arbitrary: s)
  case Nil then show ?case by simp
next
  case (Cons t ts)
  from Cons.prems have "unmatched w (length (reqs s)) t" by auto
  then have "fst (check_track w t s) = Inr Next" by (simp add: check_track_Next_iff)
  then obtain s1 where c: "check_track w t s = (Inr Next, s1)"
    by (cases "check_track w t s") auto
  from check_track_Next[OF c] obtain url evs where
    u: "reqs s1 = reqs s @ [url]" "out s1 = out s @ evs"
       "set evs \<subseteq> insert FoundLyrics (range CheckingPath)" by blast
  have "\<forall>i < length ts. unmatched w (length (reqs s1) + i) (ts ! i)"
    using Cons.prems u by auto
  from Cons.IH[OF this] obtain sf evs' where
    "for_tracks w ts s1 = (Inr Next, sf)" "out sf = out s1 @ evs'"
    "length (reqs sf) = length (reqs s1) + length ts"
    "set evs' \<subseteq> insert FoundLyrics (range CheckingPath)" by blast
  with c u show ?case by auto
qed

lemma for_tracks_error:
  assumes "i < length ts" "\<forall>j < i. unmatched w (length (reqs s) + j) (ts ! j)"
    and "round_error w (length (reqs s) + i) (ts ! i) = Some e"
  shows "\<exists>sf evs rs. for_tracks w ts s = (Inl e, sf) \<and> out sf = out s @ evs \<and>
    filter is_error_line evs = [] \<and> reqs sf = reqs s @ rs \<and>
    i \<le> length rs \<and> length rs \<le> Suc i"
  using assms
proof (induction ts arbitrary: s i)
  case Nil then show ?case by simp
next
  case (Cons t ts)
  obtain r1 s1 where c: "check_track w t s = (r1, s1)" by (cases "check_track w t s")
  from check_track_grows[OF c] obtain evs rs where
    g: "out s1 = out s @ evs" "reqs s1 = reqs s @ rs" "length rs \<le> 1"
       "filter is_error_line evs = []" by blast
  show ?case
  proof (cases i)
    case 0
    with Cons.prems(3) have "fst (check_track w t s) = Inl e"
      by (simp add: check_track_error_iff)
    with c have "r1 = Inl e" by simp
    with c have "for_tracks w (t # ts) s = (Inl e, s1)" by simp
    with g 0 show ?thesis by auto
  next
    case (Suc i')
    from Cons.prems(2) Suc have "unmatched w (length (reqs s)) t" by auto
    then have "fst (check_track w t s) = Inr Next" by (simp add: check_track_Next_iff)
    with c have n: "r1 = Inr Next" by simp
    with c obtain url where u: "reqs s1 = reqs s @ [url]" using check_track_Next by blast
    have a: "i' < length ts" using Cons.prems(1) Suc by simp
    have b: "\<forall>j < i'. unmatched w (length (reqs s1) + j) (ts ! j)"
    proof (intro allI impI)
      fix j assume "j < i'"
      then have "Suc j < i" using Suc by simp
      with Cons.prems(2) have "unmatched w (length (reqs s) + Suc j) ((t # ts) ! Suc j)"
        by blast
      with u show "unmatched w (length (reqs s1) + j) (ts ! j)" by simp
    qed
    have d: "round_error w (length (reqs s1) + i') (ts ! i') = Some e"
      using Cons.prems(3) Suc u by simp
    from Cons.IH[OF a b d] obtain sf evs' rs' where
      f: "for_tracks w ts s1 = (Inl e, sf)" "out sf = out s1 @ evs'"
         "filter is_error_line evs' = []" "reqs sf = reqs s1 @ rs'"
         "i' \<le> length rs'" "length rs' \<le> Suc i'" by blast
    from c n f(1) have "for_tracks w (t # ts) s = (Inl e, sf)" by simp
    with f g u Suc show ?thesis by auto
  qed
qed

lemma for_tracks_chars:
  "for_tracks w (map (\<lambda>c. JStr [c]) cs) s = (if cs = [] then (Inr Next, s) else (Inl TypeError, s))"
  by (cases cs) (auto simp: check_track_def)

subsection \<open>The whole scan\<close>

lemma try_body_items:
  assumes "w (length (reqs s)) library_url = Inr lib" "body_json lib = Inr tracks"
    and "py_len tracks = Inr n" "py_slice 20 tracks = Inr first" "py_iter first = Inr items"
  shows "try_body w s =
     for_tracks w items
       (s\<lparr>reqs := reqs s @ [library_url], out := out s @ [CheckingCount n]\<rparr>)"
  using assms by (simp add: try_body_def requests_get_def print_def)

lemma try_body_init:
  "w 0 library_url = Inr lib \<Longrightarrow> body_json lib = Inr (JArr ts) \<Longrightarrow>
   try_body w init =
     for_tracks w (take 20 ts) \<lparr>out = [CheckingCount (length ts)], reqs = [library_url]\<rparr>"
  using try_body_items[of w init lib "JArr ts" "length ts" "JArr (take 20 ts)" "take 20 ts"]
  by (simp add: init_def)

lemma try_body_grows:
  "try_body w s = (res, sf) \<Longrightarrow>
   \<exists>evs rs. out sf = out s @ evs \<and> reqs sf = reqs s @ library_url # rs \<and>
     filter is_error_line evs = []"
  by (auto simp: try_body_def requests_get_def print_def Let_def
      split: sum.splits dest!: for_tracks_grows)

lemma try_body_more_reqs:
  assumes "try_body w s = (res, sf)" "Suc (length (reqs s)) < length (reqs sf)"
  shows "\<exists>lib ts. w (length (reqs s)) library_url = Inr lib \<and> body_json lib = Inr (JArr ts)"
proof (cases "w (length (reqs s)) library_url")
  case (Inl e)
  with assms show ?thesis by (auto simp: try_body_def requests_get_def)
next
  case (Inr lib)
  show ?thesis
  proof (cases "body_json lib")
    case (Inl e)
    with Inr assms show ?thesis by (auto simp: try_body_def requests_get_def)
  next
    case tracks: (Inr x)
    show ?thesis
    proof (cases x)
      case (JArr ts)
      with Inr tracks show ?thesis by simp
    next
      case (JStr cs)
      with Inr tracks assms show ?thesis
        by (auto simp: try_body_def requests_get_def print_def Let_def for_tracks_chars
            split: if_splits)
    qed (use Inr tracks assms in \<open>auto simp: try_body_def requests_get_def print_def\<close>)
  qed
qed

lemma main_eq:
  "main w =
     (case try_body w init of
        (Inl e, sb) \<Rightarrow> (sb\<lparr>out := out sb @ [ErrorLine e]\<rparr>, 0)
      | (Inr c, sb) \<Rightarrow> (sb, 0))"
  by (simp add: main_def search_track_with_lyrics_def print_def split: prod.splits sum.splits)

lemma main_reqs: "reqs (fst (main w)) = reqs (snd (try_body w init))"
  by (simp add: main_eq split: prod.splits sum.splits)

lemma main_out_ok:
  "fst (try_body w init) = Inr c \<Longrightarrow> fst (main w) = snd (try_body w init)"
  by (cases "try_body w init") (simp add: main_eq)

lemma main_hit:
  assumes "0 < k" "k < length (reqs (fst (main w)))"
    and "w k (reqs (fst (main w)) ! k) = Inr r" "status_code r = 200"
    and "body_json r = Inr (JObj kvs)"
    and "map_of kvs (ascii ''syncedLyrics'') = Some (JStr text)" "sublist marker text"
  shows "length (reqs (fst (main w))) = Suc k \<and>
    (\<exists>lib ts p evs. w 0 library_url = Inr lib \<and> body_json lib = Inr (JArr ts) \<and>
       k \<le> 20 \<and> k \<le> length ts \<and>
       track_url (ts ! (k - 1)) = Inr (reqs (fst (main w)) ! k) \<and>
       py_getitem (ts ! (k - 1)) (ascii ''path'') = Inr p \<and>
       (if list_all encodable (take 200 text) then
          fst (try_body w init) = Inr Return \<and>
          out (fst (main w)) =
            evs @ [CheckingPath p, FoundRomaji p, SnippetHeader,
                   Snippet (JStr (take 200 text)), SnippetFooter]
        else
          fst (try_body w init) = Inl UnicodeEncodeError \<and>
          out (fst (main w)) =
            evs @ [CheckingPath p, FoundRomaji p, SnippetHeader,
                   ErrorLine UnicodeEncodeError]))"
proof -
  obtain res sb where tb: "try_body w init = (res, sb)" by (cases "try_body w init")
  then have rq: "reqs (fst (main w)) = reqs sb" by (simp add: main_reqs)
  from assms(1,2) rq have "Suc (length (reqs init)) < length (reqs sb)"
    by (simp add: init_def)
  from try_body_more_reqs[OF tb this] obtain lib ts where
    lib: "w 0 library_url = Inr lib" "body_json lib = Inr (JArr ts)"
    by (auto simp: init_def)
  let ?s0 = "\<lparr>out = [CheckingCount (length ts)], reqs = [library_url]\<rparr>"
  from try_body_init[where w=w, OF lib] tb have ft: "for_tracks w (take 20 ts) ?s0 = (res, sb)"
    by simp
  have k0: "length (reqs ?s0) \<le> k" using assms(1) by simp
  from for_tracks_hit[OF ft k0 assms(2)[unfolded rq] assms(3)[unfolded rq] assms(4-7)]
  obtain p evs where h: "length (reqs sb) = Suc k"
    "k - 1 < length (take 20 ts)"
    "track_url (take 20 ts ! (k - 1)) = Inr (reqs sb ! k)"
    "py_getitem (take 20 ts ! (k - 1)) (ascii ''path'') = Inr p"
    "if list_all encodable (take 200 text) then
          res = Inr Return \<and>
          out sb = evs @ [CheckingPath p, FoundRomaji p, SnippetHeader,
                          Snippet (JStr (take 200 text)), SnippetFooter]
        else
          res = Inl UnicodeEncodeError \<and>
          out sb = evs @ [CheckingPath p, FoundRomaji p, SnippetHeader]"
    by auto
  from h(2) assms(1) have kb: "k \<le> 20" "k \<le> length ts" "take 20 ts ! (k - 1) = ts ! (k - 1)"
    by auto
  have o: "if list_all encodable (take 200 text) then
          fst (try_body w init) = Inr Return \<and>
          out (fst (main w)) =
            evs @ [CheckingPath p, FoundRomaji p, SnippetHeader,
                   Snippet (JStr (take 200 text)), SnippetFooter]
        else
          fst (try_body w init) = Inl UnicodeEncodeError \<and>
          out (fst (main w)) =
            evs @ [CheckingPath p, FoundRomaji p, SnippetHeader,
                   ErrorLine UnicodeEncodeError]"
    using h(5) tb by (auto simp: main_eq split: if_splits)
  from h(1,3,4) kb lib rq o show ?thesis by (intro conjI exI[of _ lib] exI[of _ ts] exI[of _ p] exI[of _ evs]) simp_all
qed

subsection \<open>Runs of the example services\<close>

text \<open>Facts that evaluate a run of an example service.\<close>

lemmas world_defs = two_tracks_def two_tracks_plain_def no_lyrics_def quiet_def down_def
  surrogate_lyrics_def second_request_fails_def lone_surrogate_def
  ok_def not_found_def track_def konnichiwa_def library_url_def lyrics_url_def marker_def ascii_def

lemmas run_defs = main_def search_track_with_lyrics_def try_body_def init_def
  check_track_def requests_get_def print_def get_or_empty_def py_or_def Let_def
  quote_from_bytes_def utf8_char_def rstrip_def always_safe_def quoter_def hex_digit_def
  encodable_def sublist_code(3)

lemma main_two_tracks:
  "main two_tracks =
    (\<lparr>out = [CheckingCount 2, CheckingPath (JStr (ascii ''x.mp3'')), FoundLyrics,
             CheckingPath (JStr (ascii ''y.mp3'')), FoundRomaji (JStr (ascii ''y.mp3'')),
             SnippetHeader, Snippet (JStr konnichiwa), SnippetFooter],
      reqs = [library_url, lyrics_url @ ascii ''x.mp3'', lyrics_url @ ascii ''y.mp3'']\<rparr>, 0)"
  by (simp add: world_defs run_defs)

lemma unmatched_not_found:
  "unmatched no_lyrics (Suc n) (track ''a/b c.mp3'')"
  by (simp add: unmatched_def track_url_def world_defs run_defs)

lemma try_body_no_lyrics: "fst (try_body no_lyrics init) = Inr Next"
proof -
  let ?ts = "replicate 21 (track ''a/b c.mp3'')"
  let ?s0 = "\<lparr>out = [CheckingCount (length ?ts)], reqs = [library_url]\<rparr>"
  have lib: "no_lyrics 0 library_url = Inr \<lparr>status_code = 200, body_json = Inr (JArr ?ts)\<rparr>"
    by (simp add: no_lyrics_def ok_def)
  have "\<forall>i < length (take 20 ?ts). unmatched no_lyrics (length (reqs ?s0) + i) (take 20 ?ts ! i)"
    using unmatched_not_found by simp
  from for_tracks_unmatched[OF this] try_body_init[where w=no_lyrics, OF lib]
  show ?thesis by auto
qed

subsection \<open>C1: the first match ends the scan\<close>

text \<open>
  C1, as amended. Take any run and any lyrics request of it, the \<open>k\<close>-th request of the
  run (\<open>k > 0\<close>; request 0 asks for the library). If its response has status 200 and an
  object body whose \<^verbatim>\<open>syncedLyrics\<close> is a string that contains \<^verbatim>\<open>" / "\<close>, then the
  library was a list, the request belongs to the track at index \<open>k - 1\<close> of that list
  (one of the first 20), the match line for that track's path and the snippet header are
  printed, the request is the last one of the run (no later track is asked for), and no
  earlier lyrics response contained the marker. When the first 200 characters of the
  string can be written to standard output, the output ends with them as the snippet and
  with the footer, and the loop ends with \<^verbatim>\<open>return\<close>. When they cannot (they hold a lone
  surrogate), printing the snippet raises and the output ends with the error line
  instead.

  The claim as stated promises the snippet for every such string. It fails for the
  service of \<open>surrogate_lyrics\<close>, whose only track has the lyrics \<^verbatim>\<open>"a / b \ud800"\<close>: the
  run prints the match line and the header, then the error line, and no snippet.
\<close>

theorem first_match_is_reported:
  assumes "0 < k" "k < length (reqs (fst (main w)))"
    and "w k (reqs (fst (main w)) ! k) = Inr r" "status_code r = 200"
    and "body_json r = Inr (JObj kvs)"
    and "map_of kvs (ascii ''syncedLyrics'') = Some (JStr text)" "sublist marker text"
  shows "(\<exists>lib ts p evs. w 0 library_url = Inr lib \<and> body_json lib = Inr (JArr ts) \<and>
       k \<le> 20 \<and> k \<le> length ts \<and>
       track_url (ts ! (k - 1)) = Inr (reqs (fst (main w)) ! k) \<and>
       py_getitem (ts ! (k - 1)) (ascii ''path'') = Inr p \<and>
       (if list_all encodable (take 200 text) then
          fst (try_body w init) = Inr Return \<and>
          out (fst (main w)) =
            evs @ [CheckingPath p, FoundRomaji p, SnippetHeader,
                   Snippet (JStr (take 200 text)), SnippetFooter]
        else
          fst (try_body w init) = Inl UnicodeEncodeError \<and>
          out (fst (main w)) =
            evs @ [CheckingPath p, FoundRomaji p, SnippetHeader,
                   ErrorLine UnicodeEncodeError])) \<and>
    length (reqs (fst (main w))) = Suc k \<and>
    (\<forall>j r' kvs' text'. 0 < j \<and> j < k \<and> w j (reqs (fst (main w)) ! j) = Inr r' \<and>
       status_code r' = 200 \<and> body_json r' = Inr (JObj kvs') \<and>
       map_of kvs' (ascii ''syncedLyrics'') = Some (JStr text') \<longrightarrow> \<not> sublist marker text')"
proof -
  have first: "\<not> sublist marker text'"
    if "0 < j" "j < k" "w j (reqs (fst (main w)) ! j) = Inr r'" "status_code r' = 200"
      "body_json r' = Inr (JObj kvs')" "map_of kvs' (ascii ''syncedLyrics'') = Some (JStr text')"
    for j r' kvs' text'
  proof
    assume "sublist marker text'"
    from that assms(2) have "j < length (reqs (fst (main w)))" by simp
    from main_hit[OF that(1) this that(3-6) \<open>sublist marker text'\<close>] that(2) assms(2)
    show False by simp
  qed
  from main_hit[OF assms] first show ?thesis by blast
qed

theorem first_match_is_reported_witness:
  "length (reqs (fst (main two_tracks))) = Suc 2 \<and>
   fst (try_body two_tracks init) = Inr Return \<and>
   (\<exists>evs p. out (fst (main two_tracks)) =
      evs @ [CheckingPath p, FoundRomaji p, SnippetHeader, Snippet (JStr konnichiwa),
             SnippetFooter]) \<and>
   out (fst (main two_tracks)) =
     [CheckingCount 2, CheckingPath (JStr (ascii ''x.mp3'')), FoundLyrics,
      CheckingPath (JStr (ascii ''y.mp3'')), FoundRomaji (JStr (ascii ''y.mp3'')),
      SnippetHeader, Snippet (JStr konnichiwa), SnippetFooter]"
proof -
  let ?r = "\<lparr>status_code = 200,
             body_json = Inr (JObj [(ascii ''syncedLyrics'', JStr konnichiwa)])\<rparr>"
  have h1: "(0::nat) < 2" by simp
  have h2: "2 < length (reqs (fst (main two_tracks)))" by (simp add: main_two_tracks)
  have h3: "two_tracks 2 (reqs (fst (main two_tracks)) ! 2) = Inr ?r"
    by (simp add: main_two_tracks) (simp add: world_defs)
  have h4: "status_code ?r = 200" by simp
  have h5: "body_json ?r = Inr (JObj [(ascii ''syncedLyrics'', JStr konnichiwa)])" by simp
  have h6: "map_of [(ascii ''syncedLyrics'', JStr konnichiwa)] (ascii ''syncedLyrics'') =
    Some (JStr konnichiwa)" by simp
  have h7: "sublist marker konnichiwa" by (simp add: world_defs sublist_code(3))
  have t: "take 200 konnichiwa = konnichiwa" by (simp add: world_defs)
  have e: "list_all encodable konnichiwa" by (simp add: world_defs encodable_def)
  have o: "out (fst (main two_tracks)) =
     [CheckingCount 2, CheckingPath (JStr (ascii ''x.mp3'')), FoundLyrics,
      CheckingPath (JStr (ascii ''y.mp3'')), FoundRomaji (JStr (ascii ''y.mp3'')),
      SnippetHeader, Snippet (JStr konnichiwa), SnippetFooter]"
    by (simp add: main_two_tracks)
  from first_match_is_reported[OF h1 h2 h3 h4 h5 h6 h7] o e show ?thesis
    unfolding t by auto
qed

theorem first_match_is_reported_counterexample:
  "surrogate_lyrics 1 (lyrics_url @ ascii ''x.mp3'') =
     Inr \<lparr>status_code = 200,
          body_json = Inr (JObj [(ascii ''syncedLyrics'', JStr lone_surrogate)])\<rparr> \<and>
   sublist marker lone_surrogate \<and>
   main surrogate_lyrics =
     (\<lparr>out = [CheckingCount 1, CheckingPath (JStr (ascii ''x.mp3'')),
              FoundRomaji (JStr (ascii ''x.mp3'')), SnippetHeader,
              ErrorLine UnicodeEncodeError],
       reqs = [library_url, lyrics_url @ ascii ''x.mp3'']\<rparr>, 0)"
  by (simp add: world_defs run_defs)

subsection \<open>C2: at most the first 20 tracks, one request each, in order\<close>

text \<open>
  C2. When the library response parses as a list of tracks, the lyrics requests of the run
  (all requests after the first) are the URLs of the first \<open>m\<close> tracks of the list, one per
  track and in the order of the list, for some \<open>m\<close> that is at most 20 and at most the
  length of the list. When the loop runs to its end (no match and no exception stops it
  earlier), \<open>m\<close> is the smaller of 20 and the length of the list: a library of more than
  20 tracks gets exactly 20 lyrics requests, and the 21st track is never asked for.
\<close>

theorem at_most_twenty_requests_in_order:
  assumes "w 0 library_url = Inr lib" "body_json lib = Inr (JArr ts)"
  shows "\<exists>m. m \<le> 20 \<and> m \<le> length ts \<and>
    hd (reqs (fst (main w))) = library_url \<and>
    map Inr (tl (reqs (fst (main w)))) = map track_url (take m ts) \<and>
    (fst (try_body w init) = Inr Next \<longrightarrow> m = min 20 (length ts))"
proof -
  let ?s0 = "\<lparr>out = [CheckingCount (length ts)], reqs = [library_url]\<rparr>"
  obtain res sb where tb: "try_body w init = (res, sb)" by (cases "try_body w init")
  with try_body_init[where w=w, OF assms] have ft: "for_tracks w (take 20 ts) ?s0 = (res, sb)"
    by simp
  from for_tracks_reqs[OF ft] obtain m rs where
    m: "m \<le> length (take 20 ts)" "reqs sb = reqs ?s0 @ rs"
       "map Inr rs = map track_url (take m (take 20 ts))"
       "res = Inr Next \<longrightarrow> m = length (take 20 ts)" by blast
  from m(1) have "m \<le> 20" by simp
  then have tk: "take m (take 20 ts) = take m ts" by (simp add: min_def)
  have rq: "reqs (fst (main w)) = library_url # rs" using tb m(2) by (simp add: main_reqs)
  show ?thesis
    by (rule exI[of _ m]) (use m tk rq tb in auto)
qed

theorem at_most_twenty_requests_in_order_witness:
  "fst (try_body no_lyrics init) = Inr Next \<and>
   length (tl (reqs (fst (main no_lyrics)))) = 20 \<and>
   hd (reqs (fst (main no_lyrics))) = library_url"
proof -
  let ?ts = "replicate 21 (track ''a/b c.mp3'')"
  let ?lib = "\<lparr>status_code = 200, body_json = Inr (JArr ?ts)\<rparr>"
  have h1: "no_lyrics 0 library_url = Inr ?lib" by (simp add: no_lyrics_def ok_def)
  have h2: "body_json ?lib = Inr (JArr ?ts)" by simp
  from at_most_twenty_requests_in_order[where w=no_lyrics, OF h1 h2] obtain m where
    m: "hd (reqs (fst (main no_lyrics))) = library_url"
       "map Inr (tl (reqs (fst (main no_lyrics)))) = map track_url (take m ?ts)"
       "fst (try_body no_lyrics init) = Inr Next \<longrightarrow> m = min 20 (length ?ts)"
    by blast
  from m(3) try_body_no_lyrics have "m = 20" by simp
  have "length (tl (reqs (fst (main no_lyrics)))) = length (take m ?ts)"
    using m(2) by (metis length_map)
  with \<open>m = 20\<close> have "length (tl (reqs (fst (main no_lyrics)))) = 20"
    by (simp del: length_tl)
  with m(1) try_body_no_lyrics show ?thesis by blast
qed

subsection \<open>C3: no match ends the run in silence\<close>

text \<open>
  C3, as amended. When the library response parses as a list and each of its first 20
  tracks is answered with neither a match nor an exception, the loop runs out of tracks:
  the \<^verbatim>\<open>try\<close> block ends without an exception and without \<^verbatim>\<open>return\<close>, the exit status is
  0, and the lyrics requests are exactly those of the first 20 tracks. Nothing is printed
  for this outcome: the output holds the count line, the path lines and the progress
  lines only, so neither an error line nor a match report, and no line that says that no
  match was found. For an empty library the run prints the count line and issues no
  lyrics request.

  The claim as stated has the scanner report that no match was found. The script has no
  such line: the run of the service \<open>quiet\<close>, three tracks none of which matches, prints
  the count line, three path lines and one progress line, and ends.
\<close>

theorem no_match_is_an_ordinary_outcome:
  assumes "w 0 library_url = Inr lib" "body_json lib = Inr (JArr ts)"
    and "\<forall>i < min 20 (length ts). unmatched w (Suc i) (ts ! i)"
  shows "fst (try_body w init) = Inr Next \<and> snd (main w) = 0 \<and>
    filter is_error_line (out (fst (main w))) = [] \<and>
    set (out (fst (main w))) \<subseteq>
      insert (CheckingCount (length ts)) (insert FoundLyrics (range CheckingPath)) \<and>
    hd (reqs (fst (main w))) = library_url \<and>
    map Inr (tl (reqs (fst (main w)))) = map track_url (take 20 ts) \<and>
    (ts = [] \<longrightarrow> main w = (\<lparr>out = [CheckingCount 0], reqs = [library_url]\<rparr>, 0))"
proof -
  let ?s0 = "\<lparr>out = [CheckingCount (length ts)], reqs = [library_url]\<rparr>"
  have "\<forall>i < length (take 20 ts). unmatched w (length (reqs ?s0) + i) (take 20 ts ! i)"
    using assms(3) by simp
  from for_tracks_unmatched[OF this] obtain sf evs where
    f: "for_tracks w (take 20 ts) ?s0 = (Inr Next, sf)" "out sf = out ?s0 @ evs"
       "set evs \<subseteq> insert FoundLyrics (range CheckingPath)" by blast
  with try_body_init[where w=w, OF assms(1,2)] have tb: "try_body w init = (Inr Next, sf)"
    by simp
  then have mw: "main w = (sf, 0)" by (simp add: main_eq)
  from for_tracks_reqs[OF f(1)] obtain m rs where
    m: "reqs sf = reqs ?s0 @ rs" "map Inr rs = map track_url (take m (take 20 ts))"
       "m = length (take 20 ts)" by blast
  note m = m(1) m(2)[unfolded m(3)]
  have e: "main w = (\<lparr>out = [CheckingCount 0], reqs = [library_url]\<rparr>, 0)" if "ts = []"
    using that try_body_init[where w=w, OF assms(1,2)] by (simp add: main_eq)
  have tk: "take (length (take 20 ts)) (take 20 ts) = take 20 ts"
    by (cases "length ts \<le> 20") (simp_all add: min_def)
  from f(3) have ne: "filter is_error_line evs = []" by (auto simp: filter_empty_conv)
  from tb mw f m[unfolded tk] e ne show ?thesis by auto
qed

theorem no_match_is_an_ordinary_outcome_witness:
  "fst (try_body quiet init) = Inr Next \<and> snd (main quiet) = 0 \<and>
   filter is_error_line (out (fst (main quiet))) = [] \<and>
   length (tl (reqs (fst (main quiet)))) = 3"
proof -
  let ?ts = "[track ''p'', track ''q'', track ''r'']"
  let ?lib = "\<lparr>status_code = 200, body_json = Inr (JArr ?ts)\<rparr>"
  have h1: "quiet 0 library_url = Inr ?lib" by (simp add: quiet_def ok_def)
  have h2: "body_json ?lib = Inr (JArr ?ts)" by simp
  have h3: "\<forall>i < min 20 (length ?ts). unmatched quiet (Suc i) (?ts ! i)"
  proof (intro allI impI)
    fix i assume "i < min 20 (length ?ts)"
    then consider "i = 0" | "i = 1" | "i = 2" by fastforce
    then show "unmatched quiet (Suc i) (?ts ! i)"
      by cases (simp_all add: unmatched_def track_url_def world_defs run_defs)
  qed
  from no_match_is_an_ordinary_outcome[where w=quiet, OF h1 h2 h3]
  have c: "fst (try_body quiet init) = Inr Next" "snd (main quiet) = 0"
    "filter is_error_line (out (fst (main quiet))) = []"
    "map Inr (tl (reqs (fst (main quiet)))) = map track_url (take 20 ?ts)" by blast+
  have "length (tl (reqs (fst (main quiet)))) = length (take 20 ?ts)"
    using c(4) by (metis length_map)
  then have "length (tl (reqs (fst (main quiet)))) = 3" by (simp del: length_tl)
  with c show ?thesis by blast
qed

theorem no_match_is_an_ordinary_outcome_counterexample:
  "main quiet =
     (\<lparr>out = [CheckingCount 3, CheckingPath (JStr (ascii ''p'')), FoundLyrics,
              CheckingPath (JStr (ascii ''q'')), CheckingPath (JStr (ascii ''r''))],
       reqs = [library_url, lyrics_url @ ascii ''p'', lyrics_url @ ascii ''q'',
               lyrics_url @ ascii ''r'']\<rparr>, 0)"
  by (simp add: world_defs run_defs)

subsection \<open>C4: a response that is not a 200 is skipped\<close>

text \<open>
  C4. When the lyrics request for a track is answered with a status other than 200, the
  round prints the track's path, logs the request and ends with the next track: the loop
  goes on with the rest of the list. The body of the response is not parsed: replacing
  what its \<^verbatim>\<open>json()\<close> would do by anything else (a value or an exception) changes nothing.
\<close>

theorem non_200_response_is_skipped:
  assumes "track_url t = Inr url" "w (length (reqs s)) url = Inr r" "status_code r \<noteq> 200"
  shows "\<exists>p. py_getitem t (ascii ''path'') = Inr p \<and>
    check_track w t s =
      (Inr Next, s\<lparr>out := out s @ [CheckingPath p], reqs := reqs s @ [url]\<rparr>) \<and>
    for_tracks w (t # rest) s =
      for_tracks w rest (s\<lparr>out := out s @ [CheckingPath p], reqs := reqs s @ [url]\<rparr>) \<and>
    (\<forall>b. check_track (w(length (reqs s) := (w (length (reqs s)))(url := Inr (r\<lparr>body_json := b\<rparr>)))) t s =
         check_track w t s)"
proof -
  from track_urlD[OF assms(1)] obtain p enc where
    p: "py_getitem t (ascii ''path'') = Inr p" "quote p = Inr enc" "url = lyrics_url @ enc"
    by blast
  note pr = quote_printable[OF p(2)]
  have c: "check_track w t s =
      (Inr Next, s\<lparr>out := out s @ [CheckingPath p], reqs := reqs s @ [url]\<rparr>)"
    using p pr assms(2,3) by (simp add: ct_defs)
  have b: "check_track (w(length (reqs s) := (w (length (reqs s)))(url := Inr (r\<lparr>body_json := b\<rparr>)))) t s =
      check_track w t s" for b
    using p pr assms(2,3) by (simp add: ct_defs)
  from p(1) c b show ?thesis by simp
qed

theorem non_200_response_is_skipped_witness:
  "check_track no_lyrics (track ''a/b c.mp3'') init =
     (Inr Next, \<lparr>out = [CheckingPath (JStr (ascii ''a/b c.mp3''))],
                 reqs = [lyrics_url @ ascii ''a%2Fb%20c.mp3'']\<rparr>) \<and>
   for_tracks no_lyrics [track ''a/b c.mp3''] init =
     for_tracks no_lyrics [] \<lparr>out = [CheckingPath (JStr (ascii ''a/b c.mp3''))],
                 reqs = [lyrics_url @ ascii ''a%2Fb%20c.mp3'']\<rparr>"
proof -
  let ?r = "\<lparr>status_code = 404,
             body_json = Inl (JSONDecodeError ''Expecting value'')\<rparr>"
  let ?url = "lyrics_url @ ascii ''a%2Fb%20c.mp3''"
  have h1: "track_url (track ''a/b c.mp3'') = Inr ?url"
    by (simp add: track_url_def world_defs run_defs)
  have h2: "no_lyrics (length (reqs init)) ?url = Inr ?r"
    by (simp add: world_defs)
  have h3: "status_code ?r \<noteq> 200" by simp
  have p: "py_getitem (track ''a/b c.mp3'') (ascii ''path'') = Inr (JStr (ascii ''a/b c.mp3''))"
    by (simp add: track_def)
  from non_200_response_is_skipped[where w=no_lyrics and s=init and rest="[]", OF h1 h2 h3] p
  show ?thesis by (auto simp: init_def)
qed

subsection \<open>C5: one handler for every exception, and exit status 0\<close>

text \<open>
  C5. The exit status is 0 for every service, and the function always returns. Whatever
  raises inside the \<^verbatim>\<open>try\<close> block is caught by its single handler, which prints one line
  for that exception, the last line of the output and its only error line; nothing is
  requested after it. This is stated for each place of the scan at which an exception can
  arise: the library request, its \<^verbatim>\<open>json()\<close>, \<^verbatim>\<open>len\<close>, the slice, the start of the
  iteration, and the round of any track of the loop, where \<open>round_error\<close> names the first
  operation of the round that raises (the subscript, the path line, \<^verbatim>\<open>quote\<close>, the lyrics
  request, its \<^verbatim>\<open>json()\<close>, the two \<^verbatim>\<open>get\<close> calls, the substring test, the slice, the
  snippet line) once the rounds before it have ended with the next track. The last two
  conjuncts say the same of the \<^verbatim>\<open>try\<close> block as a whole: if it raises, the output is
  what it had printed followed by the one error line, and if it does not, there is no
  error line at all.
\<close>

theorem every_exception_reaches_the_handler:
  "snd (main w) = 0 \<and>
   fst (search_track_with_lyrics w init) = Inr () \<and>
   (w 0 library_url = Inl e \<longrightarrow>
      main w = (\<lparr>out = [ErrorLine e], reqs = [library_url]\<rparr>, 0)) \<and>
   (w 0 library_url = Inr lib \<and> body_json lib = Inl e \<longrightarrow>
      main w = (\<lparr>out = [ErrorLine e], reqs = [library_url]\<rparr>, 0)) \<and>
   (w 0 library_url = Inr lib \<and> body_json lib = Inr tracks \<and> py_len tracks = Inl e \<longrightarrow>
      main w = (\<lparr>out = [ErrorLine e], reqs = [library_url]\<rparr>, 0)) \<and>
   (w 0 library_url = Inr lib \<and> body_json lib = Inr tracks \<and> py_len tracks = Inr n \<and>
    py_slice 20 tracks = Inl e \<longrightarrow>
      main w = (\<lparr>out = [CheckingCount n, ErrorLine e], reqs = [library_url]\<rparr>, 0)) \<and>
   (w 0 library_url = Inr lib \<and> body_json lib = Inr tracks \<and> py_len tracks = Inr n \<and>
    py_slice 20 tracks = Inr first \<and> py_iter first = Inl e \<longrightarrow>
      main w = (\<lparr>out = [CheckingCount n, ErrorLine e], reqs = [library_url]\<rparr>, 0)) \<and>
   (w 0 library_url = Inr lib \<and> body_json lib = Inr tracks \<and> py_len tracks = Inr n \<and>
    py_slice 20 tracks = Inr first \<and> py_iter first = Inr items \<and> i < length items \<and>
    (\<forall>j < i. unmatched w (Suc j) (items ! j)) \<and>
    round_error w (Suc i) (items ! i) = Some e \<longrightarrow>
      fst (try_body w init) = Inl e \<and>
      (\<exists>evs. out (fst (main w)) = CheckingCount n # evs @ [ErrorLine e] \<and>
         filter is_error_line evs = []) \<and>
      Suc i \<le> length (reqs (fst (main w))) \<and> length (reqs (fst (main w))) \<le> Suc (Suc i)) \<and>
   (\<forall>e sb. try_body w init = (Inl e, sb) \<longrightarrow>
      out (fst (main w)) = out sb @ [ErrorLine e] \<and> reqs (fst (main w)) = reqs sb \<and>
      filter is_error_line (out (fst (main w))) = [ErrorLine e]) \<and>
   (\<forall>c sb. try_body w init = (Inr c, sb) \<longrightarrow>
      fst (main w) = sb \<and> filter is_error_line (out (fst (main w))) = [])"
proof -
  obtain res sb where tb: "try_body w init = (res, sb)" by (cases "try_body w init")
  from try_body_grows[OF tb] have ne: "filter is_error_line (out sb) = []"
    by (auto simp: init_def)
  have gen: "snd (main w) = 0 \<and> fst (search_track_with_lyrics w init) = Inr () \<and>
    (\<forall>e sb. try_body w init = (Inl e, sb) \<longrightarrow>
      out (fst (main w)) = out sb @ [ErrorLine e] \<and> reqs (fst (main w)) = reqs sb \<and>
      filter is_error_line (out (fst (main w))) = [ErrorLine e]) \<and>
    (\<forall>c sb. try_body w init = (Inr c, sb) \<longrightarrow>
      fst (main w) = sb \<and> filter is_error_line (out (fst (main w))) = [])"
    using tb ne by (cases res) (auto simp: main_eq search_track_with_lyrics_def print_def)
  have a: "main w = (\<lparr>out = [ErrorLine e], reqs = [library_url]\<rparr>, 0)"
    if "w 0 library_url = Inl e"
    using that by (simp add: main_eq try_body_def requests_get_def init_def)
  have b: "main w = (\<lparr>out = [ErrorLine e], reqs = [library_url]\<rparr>, 0)"
    if "w 0 library_url = Inr lib" "body_json lib = Inl e"
    using that by (simp add: main_eq try_body_def requests_get_def init_def)
  have c: "main w = (\<lparr>out = [ErrorLine e], reqs = [library_url]\<rparr>, 0)"
    if "w 0 library_url = Inr lib" "body_json lib = Inr tracks" "py_len tracks = Inl e"
    using that by (simp add: main_eq try_body_def requests_get_def init_def)
  have d: "main w = (\<lparr>out = [CheckingCount n, ErrorLine e], reqs = [library_url]\<rparr>, 0)"
    if "w 0 library_url = Inr lib" "body_json lib = Inr tracks" "py_len tracks = Inr n"
      "py_slice 20 tracks = Inl e"
    using that by (simp add: main_eq try_body_def requests_get_def print_def init_def)
  have d': "main w = (\<lparr>out = [CheckingCount n, ErrorLine e], reqs = [library_url]\<rparr>, 0)"
    if "w 0 library_url = Inr lib" "body_json lib = Inr tracks" "py_len tracks = Inr n"
      "py_slice 20 tracks = Inr first" "py_iter first = Inl e"
    using that by (simp add: main_eq try_body_def requests_get_def print_def init_def)
  have l: "fst (try_body w init) = Inl e \<and>
      (\<exists>evs. out (fst (main w)) = CheckingCount n # evs @ [ErrorLine e] \<and>
         filter is_error_line evs = []) \<and>
      Suc i \<le> length (reqs (fst (main w))) \<and> length (reqs (fst (main w))) \<le> Suc (Suc i)"
    if h: "w 0 library_url = Inr lib" "body_json lib = Inr tracks" "py_len tracks = Inr n"
      "py_slice 20 tracks = Inr first" "py_iter first = Inr items" "i < length items"
      "\<forall>j < i. unmatched w (Suc j) (items ! j)" "round_error w (Suc i) (items ! i) = Some e"
  proof -
    let ?s0 = "\<lparr>out = [CheckingCount n], reqs = [library_url]\<rparr>"
    have t0: "try_body w init = for_tracks w items ?s0"
      using try_body_items[of w init lib tracks n first items] h(1-5) by (simp add: init_def)
    have u: "\<forall>j < i. unmatched w (length (reqs ?s0) + j) (items ! j)" using h(7) by simp
    have r: "round_error w (length (reqs ?s0) + i) (items ! i) = Some e" using h(8) by simp
    from for_tracks_error[OF h(6) u r] obtain sf evs rs where
      f: "for_tracks w items ?s0 = (Inl e, sf)" "out sf = out ?s0 @ evs"
         "filter is_error_line evs = []" "reqs sf = reqs ?s0 @ rs"
         "i \<le> length rs" "length rs \<le> Suc i" by blast
    with t0 have "try_body w init = (Inl e, sf)" by simp
    with f show ?thesis by (simp add: main_eq)
  qed
  from gen a b c d d' l show ?thesis by blast
qed

theorem every_exception_reaches_the_handler_witness:
  "main down =
     (\<lparr>out = [ErrorLine (RequestException ''Connection refused'')], reqs = [library_url]\<rparr>, 0) \<and>
   fst (try_body second_request_fails init) = Inl (RequestException ''Connection reset'') \<and>
   snd (main second_request_fails) = 0 \<and>
   last (out (fst (main second_request_fails))) =
     ErrorLine (RequestException ''Connection reset'') \<and>
   filter is_error_line (out (fst (main second_request_fails))) =
     [ErrorLine (RequestException ''Connection reset'')] \<and>
   length (reqs (fst (main second_request_fails))) \<le> 3"
proof -
  let ?items = "[track ''p'', track ''q'']"
  let ?lib = "\<lparr>status_code = 200, body_json = Inr (JArr ?items)\<rparr>"
  let ?e = "RequestException ''Connection reset''"
  have h: "second_request_fails 0 library_url = Inr ?lib \<and> body_json ?lib = Inr (JArr ?items) \<and>
    py_len (JArr ?items) = Inr 2 \<and> py_slice 20 (JArr ?items) = Inr (JArr ?items) \<and>
    py_iter (JArr ?items) = Inr ?items \<and> 1 < length ?items \<and>
    (\<forall>j < 1. unmatched second_request_fails (Suc j) (?items ! j)) \<and>
    round_error second_request_fails (Suc 1) (?items ! 1) = Some ?e"
    by (simp add: unmatched_def round_error_def track_url_def world_defs run_defs)
  from every_exception_reaches_the_handler[of second_request_fails ?e ?lib "JArr ?items" 2
      "JArr ?items" ?items 1] h
  have c: "snd (main second_request_fails) = 0"
    "fst (try_body second_request_fails init) = Inl ?e"
    "\<exists>evs. out (fst (main second_request_fails)) = CheckingCount 2 # evs @ [ErrorLine ?e] \<and>
         filter is_error_line evs = []"
    "length (reqs (fst (main second_request_fails))) \<le> Suc (Suc 1)" by blast+
  from c(3) obtain evs where
    o: "out (fst (main second_request_fails)) = CheckingCount 2 # evs @ [ErrorLine ?e]"
       "filter is_error_line evs = []" by blast
  then have "last (out (fst (main second_request_fails))) = ErrorLine ?e"
    "filter is_error_line (out (fst (main second_request_fails))) = [ErrorLine ?e]" by simp_all
  moreover have "down 0 library_url = Inl (RequestException ''Connection refused'')"
    by (simp add: down_def)
  with every_exception_reaches_the_handler[of down "RequestException ''Connection refused''"]
  have "main down =
     (\<lparr>out = [ErrorLine (RequestException ''Connection refused'')], reqs = [library_url]\<rparr>, 0)"
    by blast
  ultimately show ?thesis using c by simp
qed

subsection \<open>C6: the path is percent-encoded\<close>
















subsection \<open>C7: a missing or null field counts as the empty string\<close>

text \<open>
  C7. For an object body and either key: when the field is missing or null the extracted
  value is the empty string, and when it is a string the extracted value is that string.
  In each case the value is a string, so the substring test, the slice and the truth test
  that follow are the string operations and raise nothing. A round whose response is a
  200 with such a body (an object whose \<^verbatim>\<open>syncedLyrics\<close> is missing, null or a string)
  is decided by that string alone: without the marker the round ends with the next track,
  with the marker it ends the scan, unless the first 200 characters of the string cannot
  be printed, in which case the snippet line raises. The hypothesis is the data model of
  the interface: the body of a 200 response is an object whose two fields are optional
  strings.
\<close>

theorem missing_or_null_field_is_empty_string:
  assumes "map_of kvs key = None \<or> map_of kvs key = Some JNull \<or> map_of kvs key = Some (JStr text)"
  shows "get_or_empty (JObj kvs) key =
      Inr (JStr (if map_of kvs key = Some (JStr text) then text else [])) \<and>
    (\<exists>u. get_or_empty (JObj kvs) key = Inr (JStr u) \<and>
       py_in marker (JStr u) = Inr (sublist marker u) \<and>
       py_slice 200 (JStr u) = Inr (JStr (take 200 u)) \<and>
       truthy (JStr u) = (u \<noteq> [])) \<and>
    (key = ascii ''syncedLyrics'' \<and> track_url t = Inr url \<and>
     w (length (reqs s)) url = Inr r \<and> status_code r = 200 \<and> body_json r = Inr (JObj kvs) \<longrightarrow>
       (\<exists>u. get_or_empty (JObj kvs) key = Inr (JStr u) \<and>
          fst (check_track w t s) =
            (if sublist marker u then
               (if list_all encodable (take 200 u) then Inr Return
                else Inl UnicodeEncodeError)
             else Inr Next)))"
proof -
  let ?u = "if map_of kvs key = Some (JStr text) then text else []"
  have g: "get_or_empty (JObj kvs) key = Inr (JStr ?u)"
    using assms by (auto simp: get_or_empty_def py_or_def)
  have c: "fst (check_track w t s) =
            (if sublist marker ?u then
               (if list_all encodable (take 200 ?u) then Inr Return
                else Inl UnicodeEncodeError)
             else Inr Next)"
    if k: "key = ascii ''syncedLyrics''" and u: "track_url t = Inr url"
      and r: "w (length (reqs s)) url = Inr r" "status_code r = 200"
        "body_json r = Inr (JObj kvs)"
  proof -
    from track_urlD[OF u] obtain p enc where
      p: "py_getitem t (ascii ''path'') = Inr p" "quote p = Inr enc" "url = lyrics_url @ enc"
      by blast
    from check_track_object[where w=w and s=s, OF p(1,2) r(1)[unfolded p(3)] r(2,3) g[unfolded k]]
    show ?thesis unfolding k by (simp split: if_splits)
  qed
  have i: "py_in marker (JStr ?u) = Inr (sublist marker ?u) \<and>
       py_slice 200 (JStr ?u) = Inr (JStr (take 200 ?u)) \<and>
       truthy (JStr ?u) = (?u \<noteq> [])" by simp
  from g i c show ?thesis by blast
qed

theorem missing_or_null_field_is_empty_string_witness:
  "get_or_empty (JObj [(ascii ''syncedLyrics'', JNull), (ascii ''plainLyrics'', JStr (ascii ''x''))])
     (ascii ''syncedLyrics'') = Inr (JStr []) \<and>
   get_or_empty (JObj []) (ascii ''plainLyrics'') = Inr (JStr []) \<and>
   fst (check_track surrogate_lyrics (track ''x.mp3'') \<lparr>out = [], reqs = [library_url]\<rparr>) =
     Inl UnicodeEncodeError"
proof -
  have h1: "map_of [(ascii ''syncedLyrics'', JNull), (ascii ''plainLyrics'', JStr (ascii ''x''))]
      (ascii ''syncedLyrics'') = None \<or>
    map_of [(ascii ''syncedLyrics'', JNull), (ascii ''plainLyrics'', JStr (ascii ''x''))]
      (ascii ''syncedLyrics'') = Some JNull \<or>
    map_of [(ascii ''syncedLyrics'', JNull), (ascii ''plainLyrics'', JStr (ascii ''x''))]
      (ascii ''syncedLyrics'') = Some (JStr [])" by simp
  have h2: "map_of [] (ascii ''plainLyrics'') = None \<or>
    map_of [] (ascii ''plainLyrics'') = Some JNull \<or>
    map_of ([]::(pystr \<times> json) list) (ascii ''plainLyrics'') = Some (JStr [])" by simp
  let ?s = "\<lparr>out = [], reqs = [library_url]\<rparr>"
  let ?kvs = "[(ascii ''syncedLyrics'', JStr lone_surrogate)]"
  let ?r = "\<lparr>status_code = 200, body_json = Inr (JObj ?kvs)\<rparr>"
  let ?url = "lyrics_url @ ascii ''x.mp3''"
  have h3: "map_of ?kvs (ascii ''syncedLyrics'') = None \<or>
    map_of ?kvs (ascii ''syncedLyrics'') = Some JNull \<or>
    map_of ?kvs (ascii ''syncedLyrics'') = Some (JStr lone_surrogate)" by simp
  have k: "track_url (track ''x.mp3'') = Inr ?url"
    "surrogate_lyrics (length (reqs ?s)) ?url = Inr ?r" "status_code ?r = 200"
    "body_json ?r = Inr (JObj ?kvs)"
    by (simp_all add: track_url_def world_defs run_defs)
  have m: "sublist marker lone_surrogate" "\<not> list_all encodable (take 200 lone_surrogate)"
    by (simp_all add: world_defs run_defs)
  from missing_or_null_field_is_empty_string[OF h3, of "track ''x.mp3''" ?url surrogate_lyrics ?s ?r] k
  obtain u where u: "get_or_empty (JObj ?kvs) (ascii ''syncedLyrics'') = Inr (JStr u)"
    "fst (check_track surrogate_lyrics (track ''x.mp3'') ?s) =
            (if sublist marker u then
               (if list_all encodable (take 200 u) then Inr Return
                else Inl UnicodeEncodeError)
             else Inr Next)" by blast
  from u(1) have "u = lone_surrogate" by (simp add: get_or_empty_text)
  with u(2) m have "fst (check_track surrogate_lyrics (track ''x.mp3'') ?s) =
     Inl UnicodeEncodeError" by simp
  with missing_or_null_field_is_empty_string[OF h1]
    missing_or_null_field_is_empty_string[OF h2]
  show ?thesis by simp
qed

subsection \<open>C8: lyrics without the marker are logged and the scan goes on\<close>

text \<open>
  C8. When the response for a track is a 200 whose object body has a non-empty string
  \<^verbatim>\<open>syncedLyrics\<close> without \<^verbatim>\<open>" / "\<close>, the round prints the path line and the progress
  line, logs the request and ends with the next track; the loop goes on with the rest.
\<close>

theorem lyrics_without_marker_are_logged:
  assumes "track_url t = Inr url" "w (length (reqs s)) url = Inr r" "status_code r = 200"
    and "body_json r = Inr (JObj kvs)"
    and "map_of kvs (ascii ''syncedLyrics'') = Some (JStr text)"
    and "text \<noteq> []" "\<not> sublist marker text"
  shows "\<exists>p. py_getitem t (ascii ''path'') = Inr p \<and>
    check_track w t s =
      (Inr Next, s\<lparr>out := out s @ [CheckingPath p, FoundLyrics], reqs := reqs s @ [url]\<rparr>) \<and>
    for_tracks w (t # rest) s =
      for_tracks w rest
        (s\<lparr>out := out s @ [CheckingPath p, FoundLyrics], reqs := reqs s @ [url]\<rparr>)"
proof -
  from track_urlD[OF assms(1)] obtain p enc where
    p: "py_getitem t (ascii ''path'') = Inr p" "quote p = Inr enc" "url = lyrics_url @ enc"
    by blast
  from check_track_object[where w=w and s=s, OF p(1,2) assms(2)[unfolded p(3)] assms(3,4)
      get_or_empty_text[OF assms(5)]] assms(6,7) p
  show ?thesis by simp
qed

theorem lyrics_without_marker_are_logged_witness:
  "check_track two_tracks (track ''x.mp3'') \<lparr>out = [CheckingCount 2], reqs = [library_url]\<rparr> =
     (Inr Next,
      \<lparr>out = [CheckingCount 2, CheckingPath (JStr (ascii ''x.mp3'')), FoundLyrics],
        reqs = [library_url, lyrics_url @ ascii ''x.mp3'']\<rparr>)"
proof -
  let ?s = "\<lparr>out = [CheckingCount 2], reqs = [library_url]\<rparr>"
  let ?kvs = "[(ascii ''syncedLyrics'', JStr (ascii ''hello world''))]"
  let ?r = "\<lparr>status_code = 200, body_json = Inr (JObj ?kvs)\<rparr>"
  let ?url = "lyrics_url @ ascii ''x.mp3''"
  have h1: "track_url (track ''x.mp3'') = Inr ?url"
    by (simp add: track_url_def world_defs run_defs)
  have h2: "two_tracks (length (reqs ?s)) ?url = Inr ?r" by (simp add: world_defs)
  have h3: "status_code ?r = 200" by simp
  have h4: "body_json ?r = Inr (JObj ?kvs)" by simp
  have h5: "map_of ?kvs (ascii ''syncedLyrics'') = Some (JStr (ascii ''hello world''))" by simp
  have h6: "ascii ''hello world'' \<noteq> []" by (simp add: ascii_def)
  have h7: "\<not> sublist marker (ascii ''hello world'')" by (simp add: world_defs sublist_code(3))
  have p: "py_getitem (track ''x.mp3'') (ascii ''path'') = Inr (JStr (ascii ''x.mp3''))"
    by (simp add: track_def)
  from lyrics_without_marker_are_logged[where w=two_tracks and s="?s" and rest="[]",
      OF h1 h2 h3 h4 h5 h6 h7] p
  show ?thesis by auto
qed

subsection \<open>C9: empty lyrics are passed over in silence\<close>

text \<open>
  C9. When the response for a track is a 200 whose object body has \<^verbatim>\<open>syncedLyrics\<close>
  missing, null or the empty string, the round prints the path line only (neither a match
  report nor a progress line), logs the request and ends with the next track; the loop
  goes on with the rest.
\<close>

theorem empty_lyrics_are_passed_silently:
  assumes "track_url t = Inr url" "w (length (reqs s)) url = Inr r" "status_code r = 200"
    and "body_json r = Inr (JObj kvs)"
    and "map_of kvs (ascii ''syncedLyrics'') = None \<or>
         map_of kvs (ascii ''syncedLyrics'') = Some JNull \<or>
         map_of kvs (ascii ''syncedLyrics'') = Some (JStr [])"
  shows "\<exists>p. py_getitem t (ascii ''path'') = Inr p \<and>
    check_track w t s =
      (Inr Next, s\<lparr>out := out s @ [CheckingPath p], reqs := reqs s @ [url]\<rparr>) \<and>
    for_tracks w (t # rest) s =
      for_tracks w rest (s\<lparr>out := out s @ [CheckingPath p], reqs := reqs s @ [url]\<rparr>)"
proof -
  from track_urlD[OF assms(1)] obtain p enc where
    p: "py_getitem t (ascii ''path'') = Inr p" "quote p = Inr enc" "url = lyrics_url @ enc"
    by blast
  have g: "get_or_empty (JObj kvs) (ascii ''syncedLyrics'') = Inr (JStr [])"
    using assms(5) by (auto simp: get_or_empty_def py_or_def)
  from check_track_object[where w=w and s=s, OF p(1,2) assms(2)[unfolded p(3)] assms(3,4) g]
    marker_nonempty p
  show ?thesis by simp
qed

theorem empty_lyrics_are_passed_silently_witness:
  "check_track quiet (track ''q'') \<lparr>out = [], reqs = [library_url]\<rparr> =
     (Inr Next, \<lparr>out = [CheckingPath (JStr (ascii ''q''))],
                 reqs = [library_url, lyrics_url @ ascii ''q'']\<rparr>)"
proof -
  let ?s = "\<lparr>out = [], reqs = [library_url]\<rparr>"
  let ?r = "\<lparr>status_code = 200, body_json = Inr (JObj [])\<rparr>"
  let ?url = "lyrics_url @ ascii ''q''"
  have h1: "track_url (track ''q'') = Inr ?url"
    by (simp add: track_url_def world_defs run_defs)
  have h2: "quiet (length (reqs ?s)) ?url = Inr ?r" by (simp add: world_defs)
  have h3: "status_code ?r = 200" by simp
  have h4: "body_json ?r = Inr (JObj [])" by simp
  have h5: "map_of [] (ascii ''syncedLyrics'') = None \<or>
         map_of [] (ascii ''syncedLyrics'') = Some JNull \<or>
         map_of ([]::(pystr \<times> json) list) (ascii ''syncedLyrics'') = Some (JStr [])" by simp
  have p: "py_getitem (track ''q'') (ascii ''path'') = Inr (JStr (ascii ''q''))"
    by (simp add: track_def)
  from empty_lyrics_are_passed_silently[where w=quiet and s="?s" and rest="[]",
      OF h1 h2 h3 h4 h5] p
  show ?thesis by auto
qed

subsection \<open>C10: the run does not depend on \<^verbatim>\<open>plainLyrics\<close>\<close>

lemma get_or_empty_agree:
  "\<forall>key. key \<noteq> ascii ''plainLyrics'' \<longrightarrow> map_of kvs1 key = map_of kvs2 key \<Longrightarrow>
   get_or_empty (JObj kvs1) (ascii ''syncedLyrics'') =
   get_or_empty (JObj kvs2) (ascii ''syncedLyrics'')"
  using keys_differ by (simp add: get_or_empty_def)

lemma check_track_plain:
  assumes "\<forall>url. same_but_plain (w1 (length (reqs s)) url) (w2 (length (reqs s)) url)"
  shows "check_track w1 t s = check_track w2 t s"
proof (cases "py_getitem t (ascii ''path'')")
  case (Inl e) then show ?thesis by (simp add: check_track_def)
next
  case p: (Inr p)
  show ?thesis
  proof (cases "quote p")
    case (Inl e) with p show ?thesis by (simp add: ct_defs)
  next
    case enc: (Inr enc)
    let ?url = "lyrics_url @ enc"
    from assms have "same_but_plain (w1 (length (reqs s)) ?url) (w2 (length (reqs s)) ?url)"
      by blast
    then consider (eq) "w1 (length (reqs s)) ?url = w2 (length (reqs s)) ?url"
      | (obj) r1 r2 kvs1 kvs2 where "w1 (length (reqs s)) ?url = Inr r1"
          "w2 (length (reqs s)) ?url = Inr r2" "status_code r1 = status_code r2"
          "body_json r1 = Inr (JObj kvs1)" "body_json r2 = Inr (JObj kvs2)"
          "\<forall>key. key \<noteq> ascii ''plainLyrics'' \<longrightarrow> map_of kvs1 key = map_of kvs2 key"
      unfolding same_but_plain_def by blast
    then show ?thesis
    proof cases
      case eq
      with p enc show ?thesis by (simp add: ct_defs)
    next
      case obj
      from get_or_empty_agree[OF obj(6)]
        get_or_empty_obj[of kvs1 "ascii ''plainLyrics''"]
        get_or_empty_obj[of kvs2 "ascii ''plainLyrics''"]
      show ?thesis using p enc obj(1-5) by (auto simp: ct_defs split: sum.splits)
    qed
  qed
qed

lemma for_tracks_plain:
  assumes "\<forall>n url. 0 < n \<longrightarrow> same_but_plain (w1 n url) (w2 n url)"
  shows "reqs s \<noteq> [] \<Longrightarrow> for_tracks w1 ts s = for_tracks w2 ts s"
proof (induction ts arbitrary: s)
  case Nil then show ?case by simp
next
  case (Cons t ts)
  from assms Cons.prems have c: "check_track w1 t s = check_track w2 t s"
    by (intro check_track_plain) simp
  obtain r s1 where r: "check_track w2 t s = (r, s1)" by (cases "check_track w2 t s")
  from check_track_grows[OF r] Cons.prems have "reqs s1 \<noteq> []" by auto
  from Cons.IH[OF this] c r show ?case by (simp split: sum.splits control.splits)
qed

text \<open>
  C10. Two services that answer the library request alike and whose answers to every later
  request differ at most in the value (or the presence) of \<^verbatim>\<open>plainLyrics\<close> give the
  same run: the same result of the \<^verbatim>\<open>try\<close> block, the same output (match report and
  snippet included), the same requests and the same exit status.
\<close>

theorem plain_lyrics_are_never_inspected:
  assumes "w1 0 library_url = w2 0 library_url"
    and "\<forall>n url. 0 < n \<longrightarrow> same_but_plain (w1 n url) (w2 n url)"
  shows "try_body w1 init = try_body w2 init \<and> main w1 = main w2"
proof -
  have "try_body w1 init = try_body w2 init"
    using assms(1) for_tracks_plain[OF assms(2)]
    by (simp add: try_body_def requests_get_def print_def init_def Let_def split: sum.splits)
  then show ?thesis by (simp add: main_eq)
qed

theorem plain_lyrics_are_never_inspected_witness:
  "main two_tracks_plain = main two_tracks \<and>
   two_tracks_plain 1 (lyrics_url @ ascii ''x.mp3'') \<noteq> two_tracks 1 (lyrics_url @ ascii ''x.mp3'')"
proof -
  have h1: "two_tracks_plain 0 library_url = two_tracks 0 library_url"
    by (simp add: two_tracks_def two_tracks_plain_def)
  have h2: "\<forall>n url. 0 < n \<longrightarrow> same_but_plain (two_tracks_plain n url) (two_tracks n url)"
    by (auto simp: same_but_plain_def two_tracks_def two_tracks_plain_def ok_def ascii_def)
  have d: "two_tracks_plain 1 (lyrics_url @ ascii ''x.mp3'') \<noteq>
    two_tracks 1 (lyrics_url @ ascii ''x.mp3'')"
    by (simp add: world_defs)
  from plain_lyrics_are_never_inspected[OF h1 h2] d show ?thesis by blast
qed

end
